theory Spec2Isabelle
  imports Complex_Main
begin

section \<open>The density-plotting cell of AdvancedSampling.ipynb\<close>

text \<open>
  The only executable code of the notebook is its fourth cell
  (\<^verbatim>\<open>.archive/2015/notes/AdvancedSampling.ipynb\<close>, lines 81 to 90):
  \<^verbatim>\<open>
  xx = np.arange(-10., 10., 0.1)
  plt.plot(xx, scipy.stats.norm.pdf(xx));
  yy = np.sqrt(scipy.stats.norm.pdf(xx))
  yy = yy / (np.sum(yy)*0.1)
  plt.plot(xx, yy);
  \<close>
  Arrays of doubles are modelled as lists of real numbers. In the model of the
  cell every arithmetic operation is the exact one and the library functions are
  what they compute on real numbers: it decides what holds up to rounding. The
  grid is modelled a second time in binary64 arithmetic, operation by operation:
  that model decides which numbers the grid contains.
\<close>

subsection \<open>Library functions\<close>

text \<open>
  \<^verbatim>\<open>np.arange(start, stop, step)\<close>: the half-open range with
  \<open>ceil((stop - start) / step)\<close> elements \<open>start + i * step\<close>
  (no element when that number is not positive). numpy rejects a step of 0;
  the cell calls the function once, with the step \<open>0.1\<close>.
\<close>

definition np_arange :: "real \<Rightarrow> real \<Rightarrow> real \<Rightarrow> real list" where
  "np_arange start stop step =
     map (\<lambda>i. start + real i * step) [0..<nat \<lceil>(stop - start) / step\<rceil>]"

text \<open>
  \<^verbatim>\<open>scipy.stats.norm.pdf\<close> with the default location 0 and scale 1:
  \<open>exp(-x**2/2) / sqrt(2*pi)\<close>, applied to every element of the array.
\<close>

definition norm_pdf :: "real \<Rightarrow> real" where
  "norm_pdf x = exp (- (x\<^sup>2) / 2) / sqrt (2 * pi)"

definition scipy_stats_norm_pdf :: "real list \<Rightarrow> real list" where
  "scipy_stats_norm_pdf xs = map norm_pdf xs"

definition np_sqrt :: "real list \<Rightarrow> real list" where
  "np_sqrt xs = map sqrt xs"

definition np_sum :: "real list \<Rightarrow> real" where
  "np_sum xs = sum_list xs"

text \<open>
  Division of an array by a scalar. A zero divisor does not raise in numpy: it
  yields non-finite values under a warning. These values are no real numbers,
  so the model makes that outcome the result \<open>None\<close>.
\<close>

definition np_divide :: "real list \<Rightarrow> real \<Rightarrow> real list option" where
  "np_divide ys d = (if d = 0 then None else Some (map (\<lambda>y. y / d) ys))"

subsection \<open>The cell\<close>

text \<open>
  The cell assigns the two variables \<open>xx\<close> and \<open>yy\<close> of the notebook's
  namespace and draws two line series on the figure of the cell. The state is
  the pair of variables, with whatever values an earlier run left in them; the
  series drawn are the output.
\<close>

record namespace =
  xx :: "real list"
  yy :: "real list"

type_synonym series = "real list \<times> real list"

definition plt_plot :: "real list \<Rightarrow> real list \<Rightarrow> series list \<Rightarrow> series list" where
  "plt_plot xs ys fig = fig @ [(xs, ys)]"

definition cell :: "namespace \<Rightarrow> (namespace \<times> series list) option" where
  "cell s0 =
     (let s1 = s0\<lparr>xx := np_arange (- 10) 10 0.1\<rparr>;
          fig1 = plt_plot (xx s1) (scipy_stats_norm_pdf (xx s1)) [];
          s2 = s1\<lparr>yy := np_sqrt (scipy_stats_norm_pdf (xx s1))\<rparr>
      in case np_divide (yy s2) (np_sum (yy s2) * 0.1) of
           None \<Rightarrow> None
         | Some q \<Rightarrow>
             (let s3 = s2\<lparr>yy := q\<rparr>
              in Some (s3, plt_plot (xx s3) (yy s3) fig1)))"

text \<open>
  The values the cell works with, line by line: the grid (line 86), curve A
  (the density drawn by line 87), the unnormalised curve B (line 88) and the
  normalised curve B (line 89, drawn by line 90).
\<close>

definition grid :: "real list" where
  "grid = np_arange (- 10) 10 0.1"

definition curveA :: "real list" where
  "curveA = scipy_stats_norm_pdf grid"

definition curveB_raw :: "real list" where
  "curveB_raw = np_sqrt (scipy_stats_norm_pdf grid)"

definition curveB :: "real list" where
  "curveB = map (\<lambda>y. y / (np_sum curveB_raw * 0.1)) curveB_raw"

subsection \<open>The grid in binary64 arithmetic\<close>

text \<open>
  What the grid contains exactly is decided by rounding, so \<^verbatim>\<open>np.arange\<close> is
  also modelled on doubles. A double is the real number it stands for, and an
  operation on doubles is the exact operation followed by rounding to the nearest
  number with a significand of 53 bits, ties going to the even significand. The
  range of the exponent is not modelled: the numbers of this computation lie
  between \<open>2^-45\<close> and \<open>2^8\<close>.
\<close>

definition round_even :: "real \<Rightarrow> int" where
  "round_even r =
     (let f = \<lfloor>r\<rfloor>
      in if r - of_int f < 1 / 2 then f
         else if 1 / 2 < r - of_int f then f + 1
         else if even f then f else f + 1)"

definition f64_round :: "real \<Rightarrow> real" where
  "f64_round x =
     (if x = 0 then 0
      else let u = 2 powr (of_int \<lfloor>log 2 \<bar>x\<bar>\<rfloor> - 52)
           in of_int (round_even (x / u)) * u)"

definition f64_add :: "real \<Rightarrow> real \<Rightarrow> real" where
  "f64_add a b = f64_round (a + b)"

definition f64_sub :: "real \<Rightarrow> real \<Rightarrow> real" where
  "f64_sub a b = f64_round (a - b)"

definition f64_mul :: "real \<Rightarrow> real \<Rightarrow> real" where
  "f64_mul a b = f64_round (a * b)"

definition f64_div :: "real \<Rightarrow> real \<Rightarrow> real" where
  "f64_div a b = f64_round (a / b)"

text \<open>
  numpy computes the number of elements as \<open>ceil((stop - start) / step)\<close>, stores
  \<open>start\<close> and \<open>start + step\<close> in the first two places and fills the others
  with \<open>start + i * delta\<close>, where \<open>delta\<close> is the difference of the first two
  elements; the product and the sum are rounded one after the other. The
  literal \<open>0.1\<close> of the source is the double nearest to one tenth.
\<close>

definition np_arange_f64 :: "real \<Rightarrow> real \<Rightarrow> real \<Rightarrow> real list" where
  "np_arange_f64 start stop step =
     (let nxt = f64_add start step;
          delta = f64_sub nxt start
      in map (\<lambda>i. if i = 0 then start else if i = 1 then nxt
                   else f64_add start (f64_mul (real i) delta))
           [0..<nat \<lceil>f64_div (f64_sub stop start) step\<rceil>])"

definition grid_f64 :: "real list" where
  "grid_f64 = np_arange_f64 (- 10) 10 (f64_round 0.1)"

text \<open>
  The density of line 87 at the points of that grid. The density is the exact
  one: its own rounding is no part of the model.
\<close>

definition curveA_f64 :: "real list" where
  "curveA_f64 = scipy_stats_norm_pdf grid_f64"

subsection \<open>Fixed-point bounds for the Riemann sum\<close>

text \<open>
  The bound on the Riemann sum of curve A is obtained by computation. The values
  \<open>exp(-(k/10)**2/2)\<close> of the density at the grid points (without the factor
  \<open>1/sqrt(2*pi)\<close>) satisfy a two-term recurrence: each is the previous one times
  \<open>exp(-(2*k+1)/200)\<close>, and that ratio is the previous ratio times
  \<open>exp(-1/100)\<close>. The functions below run this recurrence on integers that stand
  for multiples of \<open>10^-10\<close>, one rounded down and one rounded up, and add the
  terms up. They are no part of the cell; they are the device of the proof.
\<close>

definition fx_one :: int where
  "fx_one = 10000000000"

definition mul_lo :: "int \<Rightarrow> int \<Rightarrow> int" where
  "mul_lo a b = (a * b) div fx_one"

definition mul_hi :: "int \<Rightarrow> int \<Rightarrow> int" where
  "mul_hi a b = (a * b) div fx_one + 1"

fun gauss_step :: "int \<times> int \<times> int \<times> int \<Rightarrow> int \<times> int \<times> int \<times> int" where
  "gauss_step (a, b, c, d) =
     (mul_lo a c, mul_hi b d, mul_lo c 9900498333, mul_hi d 9900498346)"

primrec gauss_iter :: "nat \<Rightarrow> int \<times> int \<times> int \<times> int" where
  "gauss_iter 0 = (fx_one, fx_one, 9950124791, 9950124793)"
| "gauss_iter (Suc k) = gauss_step (gauss_iter k)"

fun gauss_acc :: "nat \<Rightarrow> int \<times> int \<times> int \<times> int \<Rightarrow> int \<times> int \<Rightarrow> int \<times> int" where
  "gauss_acc 0 s (lo, hi) = (lo, hi)"
| "gauss_acc (Suc n) (a, b, c, d) (lo, hi) =
     gauss_acc n (gauss_step (a, b, c, d)) (lo + a, hi + b)"

text \<open>
  The real numbers the integers bound: the term at distance \<open>k\<close> from the centre
  of the grid, and the ratio of two successive terms.
\<close>

definition gauss_term :: "nat \<Rightarrow> real" where
  "gauss_term k = exp (- ((real k / 10)\<^sup>2) / 2)"

definition gauss_ratio :: "nat \<Rightarrow> real" where
  "gauss_ratio k = exp (- (2 * real k + 1) / 200)"

section \<open>Basic facts about the grid and the curves\<close>

lemma grid_eq: "grid = map (\<lambda>i. - 10 + real i * 0.1) [0..<200]"
  by (simp add: grid_def np_arange_def)

lemma length_grid: "length grid = 200"
  by (simp add: grid_eq)

lemma grid_nth: "i < 200 \<Longrightarrow> grid ! i = - 10 + real i * 0.1"
  by (simp add: grid_eq)

lemma norm_pdf_pos: "0 < norm_pdf x"
  by (simp add: norm_pdf_def)

lemma length_curveA: "length curveA = 200"
  by (simp add: curveA_def scipy_stats_norm_pdf_def length_grid)

lemma length_curveB_raw: "length curveB_raw = 200"
  by (simp add: curveB_raw_def np_sqrt_def scipy_stats_norm_pdf_def length_grid)

lemma length_curveB: "length curveB = 200"
  by (simp add: curveB_def length_curveB_raw)

lemma curveA_nth: "i < 200 \<Longrightarrow> curveA ! i = norm_pdf (grid ! i)"
  by (simp add: curveA_def scipy_stats_norm_pdf_def length_grid)

lemma curveB_raw_nth: "i < 200 \<Longrightarrow> curveB_raw ! i = sqrt (norm_pdf (grid ! i))"
  by (simp add: curveB_raw_def np_sqrt_def scipy_stats_norm_pdf_def length_grid)

lemma curveB_raw_pos: "y \<in> set curveB_raw \<Longrightarrow> 0 < y"
  by (auto simp add: curveB_raw_def np_sqrt_def scipy_stats_norm_pdf_def norm_pdf_pos)

lemma sum_list_pos_real:
  "xs \<noteq> [] \<Longrightarrow> (\<And>y. y \<in> set xs \<Longrightarrow> 0 < y) \<Longrightarrow> 0 < sum_list (xs :: real list)"
  by (induction xs) (auto intro: add_pos_nonneg sum_list_nonneg less_imp_le)

lemma curveB_raw_sum_pos: "0 < np_sum curveB_raw"
  unfolding np_sum_def
proof (rule sum_list_pos_real)
  show "curveB_raw \<noteq> []"
    using length_curveB_raw by auto
qed (rule curveB_raw_pos)

lemma curveB_nth:
  "i < 200 \<Longrightarrow> curveB ! i = sqrt (norm_pdf (grid ! i)) / (np_sum curveB_raw * 0.1)"
  by (simp add: curveB_def length_curveB_raw curveB_raw_nth)

text \<open>What the cell returns, whatever the namespace held before.\<close>

lemma cell_result:
  "cell s = Some (\<lparr>xx = grid, yy = curveB\<rparr>, [(grid, curveA), (grid, curveB)])"
proof -
  have d: "np_sum (np_sqrt (scipy_stats_norm_pdf (np_arange (- 10) 10 0.1))) * 0.1 \<noteq> 0"
    using curveB_raw_sum_pos by (simp add: curveB_raw_def grid_def)
  show ?thesis
    using d unfolding cell_def Let_def np_divide_def plt_plot_def curveB_def curveB_raw_def
      curveA_def grid_def
    by simp
qed

lemma sum_list_div_const: "sum_list (map (\<lambda>y. y / d) xs) = sum_list xs / (d :: real)"
  by (induction xs) (simp_all add: add_divide_distrib)

section \<open>Rounding to binary64\<close>

lemma round_even_of_int: "round_even (of_int z) = z"
  by (simp add: round_even_def)

lemma round_even_close: "\<bar>of_int (round_even r) - r\<bar> \<le> 1 / 2"
proof -
  have "of_int \<lfloor>r\<rfloor> \<le> r" "r < of_int \<lfloor>r\<rfloor> + 1"
    by linarith+
  then show ?thesis
    unfolding round_even_def Let_def by (auto simp add: abs_le_iff)
qed

lemma floor_log2_eq:
  assumes "2 powr of_int n \<le> x" "x < 2 powr of_int (n + 1)"
  shows "\<lfloor>log 2 x\<rfloor> = n"
proof -
  have x: "0 < x"
    using assms(1) by (smt (verit) powr_gt_zero)
  have "log 2 (2 powr of_int n) \<le> log 2 x"
    using assms(1) x by (subst log_le_cancel_iff) simp_all
  then have a: "of_int n \<le> log 2 x" by simp
  have "log 2 x < log 2 (2 powr of_int (n + 1))"
    using assms(2) x by (subst log_less_cancel_iff) simp_all
  then have b: "log 2 x < of_int n + 1" by simp
  show ?thesis
    using a b by (intro floor_unique) simp_all
qed

lemma f64_round_ulp:
  assumes "2 ^ 52 \<le> \<bar>x\<bar> / 2 powr of_int j" "\<bar>x\<bar> / 2 powr of_int j < 2 ^ 53"
  shows "f64_round x = of_int (round_even (x / 2 powr of_int j)) * 2 powr of_int j"
proof -
  have u: "0 < (2::real) powr of_int j" by simp
  have a: "2 powr of_int (j + 52) \<le> \<bar>x\<bar>"
  proof -
    have "2 ^ 52 * 2 powr of_int j \<le> \<bar>x\<bar>"
      using assms(1) u by (simp add: pos_le_divide_eq)
    moreover have "(2::real) powr of_int (j + 52) = 2 ^ 52 * 2 powr of_int j"
      by (simp add: powr_add)
    ultimately show ?thesis by simp
  qed
  have b: "\<bar>x\<bar> < 2 powr of_int (j + 52 + 1)"
  proof -
    have "\<bar>x\<bar> < 2 ^ 53 * 2 powr of_int j"
      using assms(2) u by (simp add: pos_divide_less_eq)
    moreover have "(2::real) powr of_int (j + 52 + 1) = 2 ^ 53 * 2 powr of_int j"
      by (simp add: powr_add)
    ultimately show ?thesis by simp
  qed
  have e: "\<lfloor>log 2 \<bar>x\<bar>\<rfloor> = j + 52"
    using a b by (rule floor_log2_eq)
  have "x \<noteq> 0"
    using a by (smt (verit) powr_gt_zero)
  then show ?thesis
    by (simp add: f64_round_def e Let_def)
qed

lemma f64_round_representable:
  assumes "\<bar>k\<bar> < 2 ^ 53"
  shows "f64_round (of_int k * 2 powr of_int j) = of_int k * 2 powr of_int j"
proof (cases "k = 0")
  case True
  then show ?thesis by (simp add: f64_round_def)
next
  case False
  then have "1 \<le> nat \<bar>k\<bar>" by simp
  then obtain n where n: "2 ^ n \<le> nat \<bar>k\<bar>" "nat \<bar>k\<bar> < 2 ^ (n + 1)"
    using ex_power_ivl1 [of 2 "nat \<bar>k\<bar>"] by auto
  have lo: "(2::int) ^ n \<le> \<bar>k\<bar>"
    using n(1) by (simp add: le_nat_iff flip: of_nat_le_iff)
  have hi: "\<bar>k\<bar> < (2::int) ^ (n + 1)"
    using n(2) by (simp add: nat_less_iff)
  have "(2::int) ^ n < 2 ^ 53"
    using lo assms by linarith
  then have "n < 53"
    by (rule power_less_imp_less_exp [rotated]) simp
  then have n52: "n \<le> 52"
    by simp
  define p :: int where "p = 2 ^ (52 - n)"
  define j' :: int where "j' = j + int n - 52"
  have pj: "(2::real) powr of_int j = of_int p * 2 powr of_int j'"
  proof -
    have "of_int j = of_int j' + real (52 - n)"
      using n52 by (simp add: j'_def)
    then have "(2::real) powr of_int j = 2 powr of_int j' * 2 powr real (52 - n)"
      by (simp only: powr_add)
    also have "(2::real) powr real (52 - n) = of_int p"
      by (simp add: powr_realpow p_def)
    finally show ?thesis by (simp add: mult.commute)
  qed
  define x :: real where "x = of_int k * 2 powr of_int j"
  have q: "x / 2 powr of_int j' = of_int (k * p)"
    unfolding x_def pj by simp
  have aq: "\<bar>x\<bar> / 2 powr of_int j' = of_int (\<bar>k\<bar> * p)"
    unfolding x_def pj by (simp add: abs_mult p_def)
  have p0: "0 < p" by (simp add: p_def)
  have "(2::int) ^ 52 = 2 ^ n * p"
    using n52 by (simp add: p_def flip: power_add)
  also have "\<dots> \<le> \<bar>k\<bar> * p"
    using lo p0 by (intro mult_right_mono) simp_all
  finally have a: "(2::int) ^ 52 \<le> \<bar>k\<bar> * p" .
  have "\<bar>k\<bar> * p < 2 ^ (n + 1) * p"
    using hi p0 by (intro mult_strict_right_mono)
  also have "\<dots> = 2 ^ 53"
    using n52 by (simp add: p_def flip: power_add power_Suc)
  finally have b: "\<bar>k\<bar> * p < (2::int) ^ 53" .
  have a': "(2::real) ^ 52 \<le> \<bar>x\<bar> / 2 powr of_int j'"
    unfolding aq using a by (metis of_int_le_iff of_int_numeral of_int_power)
  have b': "\<bar>x\<bar> / 2 powr of_int j' < (2::real) ^ 53"
    unfolding aq using b by (metis of_int_less_iff of_int_numeral of_int_power)
  have "f64_round x = of_int (round_even (x / 2 powr of_int j')) * 2 powr of_int j'"
    using a' b' by (rule f64_round_ulp)
  also have "\<dots> = of_int (k * p) * 2 powr of_int j'"
    unfolding q round_even_of_int ..
  also have "\<dots> = x"
    unfolding x_def pj by simp
  finally show ?thesis
    unfolding x_def .
qed

lemma pow2_neg: "(2::real) powr of_int (- int n) = 1 / 2 ^ n"
  by (simp add: powr_minus powr_realpow inverse_eq_divide)

lemma pow2_neg_div: "y / 2 powr of_int (- int n) = y * 2 ^ n" for y :: real
  unfolding pow2_neg by simp

lemma pow2_neg_mult: "y * 2 powr of_int (- int n) = y / 2 ^ n" for y :: real
  unfolding pow2_neg by simp

lemma f64_round_int_over_pow2:
  assumes "\<bar>k\<bar> < 2 ^ 53"
  shows "f64_round (of_int k / 2 ^ n) = of_int k / 2 ^ n"
  using f64_round_representable [OF assms, of "- int n"] unfolding pow2_neg_mult .

lemma f64_round_ulp_pow2:
  assumes "2 ^ 52 \<le> \<bar>x\<bar> * 2 ^ n" "\<bar>x\<bar> * 2 ^ n < 2 ^ 53"
  shows "f64_round x = of_int (round_even (x * 2 ^ n)) / 2 ^ n"
  using f64_round_ulp [of x "- int n"] assms unfolding pow2_neg_div pow2_neg_mult by blast

lemma step_f64: "f64_round 0.1 = 3602879701896397 / 2 ^ 55"
proof -
  have r: "round_even (0.1 * 2 ^ 56) = 7205759403792794"
    by (simp add: round_even_def Let_def)
  have "f64_round 0.1 = of_int (round_even (0.1 * 2 ^ 56)) / 2 ^ 56"
    by (rule f64_round_ulp_pow2) simp_all
  then show ?thesis
    unfolding r by simp
qed

lemma length_f64: "f64_div (f64_sub 10 (- 10)) (f64_round 0.1) = 200"
proof -
  have "f64_round (of_int 20 / 2 ^ 0) = of_int 20 / 2 ^ 0"
    by (rule f64_round_int_over_pow2) simp
  then have a: "f64_sub 10 (- 10) = 20"
    by (simp add: f64_sub_def)
  have r: "round_even (20 / (3602879701896397 / 2 ^ 55) * 2 ^ 45) = 7036874417766400"
    by (simp add: round_even_def Let_def)
  have "f64_round (20 / (3602879701896397 / 2 ^ 55))
      = of_int (round_even (20 / (3602879701896397 / 2 ^ 55) * 2 ^ 45)) / 2 ^ 45"
    by (rule f64_round_ulp_pow2) simp_all
  then show ?thesis
    unfolding r f64_div_def a step_f64 by simp
qed

lemma next_f64: "f64_add (- 10) (f64_round 0.1) = - 5573204538870989 / 2 ^ 49"
proof -
  have r: "round_even ((- 10 + 3602879701896397 / 2 ^ 55) * 2 ^ 49) = - 5573204538870989"
    by (simp add: round_even_def Let_def)
  have "f64_round (- 10 + 3602879701896397 / 2 ^ 55)
      = of_int (round_even ((- 10 + 3602879701896397 / 2 ^ 55) * 2 ^ 49)) / 2 ^ 49"
    by (rule f64_round_ulp_pow2) simp_all
  then show ?thesis
    unfolding r f64_add_def step_f64 by simp
qed

lemma delta_f64: "f64_sub (- 5573204538870989 / 2 ^ 49) (- 10) = 56294995342131 / 2 ^ 49"
proof -
  have "f64_round (of_int 56294995342131 / 2 ^ 49) = of_int 56294995342131 / 2 ^ 49"
    by (rule f64_round_int_over_pow2) simp
  moreover have "- 5573204538870989 / 2 ^ 49 - (- 10) = (of_int 56294995342131 / 2 ^ 49 :: real)"
    by simp
  ultimately show ?thesis
    unfolding f64_sub_def by simp
qed

section \<open>The elements of the grid in binary64\<close>

lemma grid_f64_eq:
  "grid_f64 = map (\<lambda>i. if i = 0 then - 10 else if i = 1 then - 5573204538870989 / 2 ^ 49
       else f64_add (- 10) (f64_mul (real i) (56294995342131 / 2 ^ 49))) [0..<200]"
  unfolding grid_f64_def np_arange_f64_def Let_def length_f64 next_f64 delta_f64 by simp

lemma length_grid_f64: "length grid_f64 = 200"
  by (simp add: grid_f64_eq)

lemma elem_low:
  assumes "i \<le> 160"
  shows "f64_add (- 10) (f64_mul (real i) (56294995342131 / 2 ^ 49))
    = of_int (int i * 56294995342131 - 5629499534213120) / 2 ^ 49"
proof -
  have i: "int i \<le> 160" "0 \<le> int i"
    using assms by simp_all
  have "\<bar>int i * 56294995342131\<bar> < 2 ^ 53"
    using i by simp
  then have "f64_round (of_int (int i * 56294995342131) / 2 ^ 49)
      = of_int (int i * 56294995342131) / 2 ^ 49"
    by (rule f64_round_int_over_pow2)
  then have m: "f64_mul (real i) (56294995342131 / 2 ^ 49)
      = of_int (int i * 56294995342131) / 2 ^ 49"
    by (simp add: f64_mul_def)
  have "\<bar>int i * 56294995342131 - 5629499534213120\<bar> < 2 ^ 53"
    using i by simp
  then have f: "f64_round (of_int (int i * 56294995342131 - 5629499534213120) / 2 ^ 49)
      = of_int (int i * 56294995342131 - 5629499534213120) / 2 ^ 49"
    by (rule f64_round_int_over_pow2)
  have e: "- 10 + of_int (int i * 56294995342131) / 2 ^ 49
      = (of_int (int i * 56294995342131 - 5629499534213120) / 2 ^ 49 :: real)"
    by (simp add: diff_divide_distrib)
  show ?thesis
    unfolding f64_add_def m e by (rule f)
qed

lemma elem_high:
  assumes "161 \<le> i" "i \<le> 199"
  shows "f64_add (- 10) (f64_mul (real i) (56294995342131 / 2 ^ 49))
    = of_int (2 * round_even (real i * 56294995342131 / 2) - 5629499534213120) / 2 ^ 49"
proof -
  define r where "r = round_even (real i * 56294995342131 / 2)"
  have i: "161 \<le> real i" "real i \<le> 199"
    using assms by simp_all
  have c: "\<bar>of_int r - real i * 56294995342131 / 2\<bar> \<le> 1 / 2"
    unfolding r_def by (rule round_even_close)
  have x: "real i * (56294995342131 / 2 ^ 49) * 2 ^ 48 = real i * 56294995342131 / 2"
    by simp
  have "f64_round (real i * (56294995342131 / 2 ^ 49))
      = of_int (round_even (real i * (56294995342131 / 2 ^ 49) * 2 ^ 48)) / 2 ^ 48"
    using i by (intro f64_round_ulp_pow2) (simp_all add: abs_mult)
  then have m: "f64_mul (real i) (56294995342131 / 2 ^ 49) = of_int r / 2 ^ 48"
    unfolding x r_def f64_mul_def .
  have "real_of_int r \<le> 5601352036542035" "4531747125041545 \<le> real_of_int r"
    using c i by linarith+
  then have "r \<le> 5601352036542035" "4531747125041545 \<le> r"
    by linarith+
  then have "\<bar>2 * r - 5629499534213120\<bar> < 2 ^ 53"
    by simp
  then have f: "f64_round (of_int (2 * r - 5629499534213120) / 2 ^ 49)
      = of_int (2 * r - 5629499534213120) / 2 ^ 49"
    by (rule f64_round_int_over_pow2)
  have e: "- 10 + of_int r / 2 ^ 48
      = (of_int (2 * r - 5629499534213120) / 2 ^ 49 :: real)"
    by (simp add: diff_divide_distrib)
  have "f64_add (- 10) (f64_mul (real i) (56294995342131 / 2 ^ 49))
      = of_int (2 * r - 5629499534213120) / 2 ^ 49"
    unfolding f64_add_def m e by (rule f)
  then show ?thesis
    unfolding r_def .
qed

lemma grid_f64_nth_low:
  assumes "i \<le> 160"
  shows "grid_f64 ! i = of_int (int i * 56294995342131 - 5629499534213120) / 2 ^ 49"
proof -
  consider "i = 0" | "i = 1" | "2 \<le> i" by linarith
  then show ?thesis
  proof cases
    case 1
    then show ?thesis by (simp add: grid_f64_eq)
  next
    case 2
    then show ?thesis by (simp add: grid_f64_eq)
  next
    case 3
    then have "grid_f64 ! i = f64_add (- 10) (f64_mul (real i) (56294995342131 / 2 ^ 49))"
      using assms by (simp add: grid_f64_eq)
    then show ?thesis
      using elem_low [OF assms] by simp
  qed
qed

lemma grid_f64_nth_high:
  assumes "161 \<le> i" "i \<le> 199"
  shows "grid_f64 ! i
    = of_int (2 * round_even (real i * 56294995342131 / 2) - 5629499534213120) / 2 ^ 49"
proof -
  have "grid_f64 ! i = f64_add (- 10) (f64_mul (real i) (56294995342131 / 2 ^ 49))"
    using assms by (simp add: grid_f64_eq)
  then show ?thesis
    using elem_high [OF assms] by simp
qed

lemma grid_f64_100: "grid_f64 ! 100 = - 20 / 2 ^ 49"
  using grid_f64_nth_low [of 100] by simp

lemma grid_f64_close:
  assumes "i < 200"
  shows "\<bar>grid_f64 ! i - (- 10 + 0.1 * real i)\<bar> \<le> 1 / 10 ^ 13"
proof (cases "i \<le> 160")
  case True
  have "grid_f64 ! i - (- 10 + 0.1 * real i) = - real i / (5 * 2 ^ 49)"
    unfolding grid_f64_nth_low [OF True] by (simp add: field_simps)
  moreover have "real i \<le> 160"
    using True by simp
  ultimately show ?thesis
    by (simp add: field_simps)
next
  case False
  then have i: "161 \<le> i" "i \<le> 199"
    using assms by simp_all
  define r where "r = round_even (real i * 56294995342131 / 2)"
  define d where "d = of_int r - real i * 56294995342131 / 2"
  have c: "\<bar>d\<bar> \<le> 1 / 2"
    unfolding d_def r_def by (rule round_even_close)
  have e: "grid_f64 ! i - (- 10 + 0.1 * real i) = (2 * d - real i / 5) / 2 ^ 49"
    unfolding grid_f64_nth_high [OF i] r_def [symmetric] d_def by (simp add: field_simps)
  have "0 \<le> real i" "real i \<le> 199"
    using i by simp_all
  then have "\<bar>2 * d - real i / 5\<bar> \<le> 1 + 199 / 5"
    using c by linarith
  then have "\<bar>2 * d - real i / 5\<bar> / 2 ^ 49 \<le> (1 + 199 / 5) / 2 ^ 49"
    by (rule divide_right_mono) simp
  moreover have "\<bar>(2 * d - real i / 5) / 2 ^ 49\<bar> = \<bar>2 * d - real i / 5\<bar> / 2 ^ 49"
    by (simp add: abs_divide)
  moreover have "(1 + 199 / 5) / 2 ^ 49 \<le> (1 / 10 ^ 13 :: real)"
    by simp
  ultimately show ?thesis
    unfolding e by linarith
qed

text \<open>The two models of the grid agree up to rounding.\<close>

lemma grid_f64_near_grid:
  assumes "i < 200"
  shows "\<bar>grid_f64 ! i - grid ! i\<bar> \<le> 1 / 10 ^ 13"
proof -
  have "grid ! i = - 10 + 0.1 * real i"
    using assms by (simp add: grid_nth)
  then show ?thesis
    using grid_f64_close [OF assms] by simp
qed

lemma grid_f64_199: "grid_f64 ! 199 = 5573204538870948 / 2 ^ 49"
proof -
  have "round_even (real 199 * 56294995342131 / 2) = 5601352036542034"
    by (simp add: round_even_def Let_def)
  then show ?thesis
    using grid_f64_nth_high [of 199] by simp
qed

lemma last_grid_f64: "last grid_f64 = 5573204538870948 / 2 ^ 49"
proof -
  have "grid_f64 \<noteq> []"
    using length_grid_f64 by auto
  then have "last grid_f64 = grid_f64 ! (length grid_f64 - 1)"
    by (rule last_conv_nth)
  then show ?thesis
    by (simp add: length_grid_f64 grid_f64_199)
qed

lemma hd_grid_f64: "hd grid_f64 = - 10"
  by (simp add: grid_f64_eq hd_map)

lemma grid_f64_sorted: "sorted_wrt (<) grid_f64"
  unfolding sorted_wrt_iff_nth_less
proof (intro allI impI)
  fix i j
  assume ij: "i < j" and j: "j < length grid_f64"
  then have j200: "j < 200" and i200: "i < 200"
    by (simp_all add: length_grid_f64)
  have "real i + 1 \<le> real j"
    using ij by linarith
  moreover have "(1 / 10 ^ 13 :: real) \<le> 1 / 100"
    by simp
  ultimately show "grid_f64 ! i < grid_f64 ! j"
    using grid_f64_close [OF i200] grid_f64_close [OF j200] by linarith
qed

section \<open>The grid (C3)\<close>

text \<open>
  C3, as stated: the grid has 200 elements, every element equals
  \<open>-10.0 + 0.1 * i\<close>, the first is \<open>-10.0\<close> and the last is \<open>10.0\<close>. The last
  element of the grid is not \<open>10.0\<close>, in exact and in binary64 arithmetic: the
  range of \<^verbatim>\<open>np.arange\<close> is half-open.
\<close>

theorem grid_last_is_not_stop: "last grid \<noteq> 10 \<and> last grid_f64 \<noteq> 10"
  by (simp add: grid_eq last_map last_grid_f64)

text \<open>
  C3, amended: the grid is a strictly increasing sequence of exactly 200 doubles;
  every element equals \<open>-10.0 + 0.1 * i\<close> within \<open>1e-13\<close> (\<open>i = 0, ..., 199\<close>),
  the first element is \<open>-10.0\<close> and the last is \<open>9.9\<close> within \<open>1e-13\<close>, below the
  stop value \<open>10.0\<close>, which is excluded.
\<close>

theorem grid_contents:
  "i < 200 \<Longrightarrow>
   length grid_f64 = 200 \<and> sorted_wrt (<) grid_f64 \<and>
   \<bar>grid_f64 ! i - (- 10 + 0.1 * real i)\<bar> \<le> 1 / 10 ^ 13 \<and>
   hd grid_f64 = - 10 \<and>
   \<bar>last grid_f64 - 9.9\<bar> \<le> 1 / 10 ^ 13 \<and> last grid_f64 < 10"
proof -
  assume i: "i < 200"
  have "\<bar>last grid_f64 - 9.9\<bar> \<le> 1 / 10 ^ 13" "last grid_f64 < 10"
    unfolding last_grid_f64 by simp_all
  then show ?thesis
    using grid_f64_close [OF i]
    by (simp only: length_grid_f64 grid_f64_sorted hd_grid_f64 simp_thms)
qed

theorem grid_contents_witness:
  "(199::nat) < 200 \<and> length grid_f64 = 200 \<and> sorted_wrt (<) grid_f64 \<and>
   \<bar>grid_f64 ! 199 - (- 10 + 0.1 * real (199::nat))\<bar> \<le> 1 / 10 ^ 13 \<and>
   hd grid_f64 = - 10 \<and>
   \<bar>last grid_f64 - 9.9\<bar> \<le> 1 / 10 ^ 13 \<and> last grid_f64 < 10"
  using grid_contents [of 199] by simp

section \<open>Normalisation of curve B (C1, C8)\<close>

text \<open>
  C1: curve B is \<open>sqrt(normal_pdf(x))\<close> at every grid point \<open>x\<close>, every value
  divided by the sum of these values times \<open>0.1\<close>; it is the value of \<open>yy\<close>
  when the cell has run, and then \<open>sum(curveB) * 0.1\<close> is 1 (exactly, in real
  arithmetic).
\<close>

theorem curveB_normalised:
  "curveB =
     map (\<lambda>x. sqrt (norm_pdf x) / (np_sum (map (\<lambda>x. sqrt (norm_pdf x)) grid) * 0.1)) grid
   \<and> map_option (\<lambda>r. yy (fst r)) (cell s) = Some curveB
   \<and> np_sum curveB * 0.1 = 1"
proof -
  have r: "curveB_raw = map (\<lambda>x. sqrt (norm_pdf x)) grid"
    by (simp add: curveB_raw_def np_sqrt_def scipy_stats_norm_pdf_def)
  have "curveB =
      map (\<lambda>x. sqrt (norm_pdf x) / (np_sum (map (\<lambda>x. sqrt (norm_pdf x)) grid) * 0.1)) grid"
    unfolding curveB_def r by (simp add: comp_def)
  moreover have "map_option (\<lambda>r. yy (fst r)) (cell s) = Some curveB"
    by (simp add: cell_result)
  moreover have "np_sum curveB * 0.1 = 1"
  proof -
    have "np_sum curveB = np_sum curveB_raw / (np_sum curveB_raw * 0.1)"
      unfolding curveB_def np_sum_def by (rule sum_list_div_const)
    then show ?thesis
      using curveB_raw_sum_pos by simp
  qed
  ultimately show ?thesis by blast
qed

text \<open>
  C8: the values \<open>sqrt(normal_pdf(x))\<close> over the grid are strictly positive and
  so is the divisor \<open>sum(curve B) * 0.1\<close> of the normalisation: the division is
  never one by zero and the cell has a result.
\<close>

theorem normalisation_divisor_positive:
  "list_all (\<lambda>y. 0 < y) curveB_raw \<and>
   0 < np_sum curveB_raw * 0.1 \<and>
   np_divide curveB_raw (np_sum curveB_raw * 0.1) = Some curveB \<and>
   cell s \<noteq> None"
proof -
  have "list_all (\<lambda>y. 0 < y) curveB_raw"
    unfolding list_all_iff using curveB_raw_pos by blast
  moreover have "0 < np_sum curveB_raw * 0.1"
    using curveB_raw_sum_pos by simp
  ultimately show ?thesis
    by (simp add: np_divide_def curveB_def cell_result)
qed

section \<open>Signs and proportions (C7)\<close>

text \<open>
  C7: every value of curve A and every value of curve B is at least 0.
\<close>

theorem curves_nonneg: "y \<in> set curveA \<union> set curveB \<Longrightarrow> 0 \<le> y"
proof -
  assume "y \<in> set curveA \<union> set curveB"
  then consider "y \<in> set curveA" | "y \<in> set curveB" by blast
  then show "0 \<le> y"
  proof cases
    case 1
    then obtain x where "y = norm_pdf x"
      by (auto simp add: curveA_def scipy_stats_norm_pdf_def)
    then show ?thesis
      using norm_pdf_pos [of x] by simp
  next
    case 2
    then obtain z where z: "z \<in> set curveB_raw" and y: "y = z / (np_sum curveB_raw * 0.1)"
      by (auto simp add: curveB_def)
    have "0 < z" using z by (rule curveB_raw_pos)
    then show ?thesis
      unfolding y using curveB_raw_sum_pos by simp
  qed
qed

theorem curves_nonneg_witness:
  "curveA ! 0 \<in> set curveA \<union> set curveB \<and> 0 \<le> curveA ! 0"
proof -
  have "curveA ! 0 \<in> set curveA"
    by (rule nth_mem) (simp add: length_curveA)
  then have m: "curveA ! 0 \<in> set curveA \<union> set curveB" by simp
  show ?thesis
    using m curves_nonneg [OF m] by simp
qed

text \<open>
  Over the reals curve B is proportional to the square root of curve A: the two
  quotients are equal for all indices of the grid. Whether they are equal as
  doubles is decided by the rounding of the density, of the square roots, of the
  sum and of the divisions, which the model of the cell does not contain.
\<close>

lemma curveB_proportional_real:
  "i < 200 \<Longrightarrow> j < 200 \<Longrightarrow>
   curveB ! i / curveB ! j = sqrt (curveA ! i) / sqrt (curveA ! j)"
  using curveB_raw_sum_pos by (simp add: curveB_nth curveA_nth)

section \<open>Bounds on \<open>pi\<close> and on \<open>sqrt (2 * pi)\<close>\<close>

lemma sum_upto7: "(\<Sum>m<7. f m) = f 0 + f 1 + f 2 + f 3 + f 4 + f 5 + (f (6::nat) :: real)"
  by (simp add: eval_nat_numeral)

lemma sin_poly7: "\<bar>sin (x::real) - (x - x^3 / 6 + x^5 / 120)\<bar> \<le> \<bar>x\<bar>^7 / 5040"
proof -
  have c: "sin_coeff 0 = 0" "sin_coeff 1 = 1" "sin_coeff 2 = 0" "sin_coeff 3 = - 1 / 6"
    "sin_coeff 4 = 0" "sin_coeff 5 = 1 / 120" "sin_coeff 6 = 0"
    by (simp_all add: sin_coeff_def fact_numeral)
  have s: "(\<Sum>m<7. sin_coeff m * x ^ m) = x - x^3 / 6 + x^5 / 120"
    unfolding sum_upto7 c by simp
  have f: "inverse (fact 7 :: real) = 1 / 5040"
    by (simp add: fact_numeral)
  have "\<bar>sin x - (\<Sum>m<7. sin_coeff m * x ^ m)\<bar> \<le> inverse (fact 7) * \<bar>x\<bar> ^ 7"
    by (rule Maclaurin_sin_bound)
  then show ?thesis
    unfolding s f by simp
qed

lemma sin_lt_half: "sin (52359/100000 :: real) < 1/2"
proof -
  have "(52359/100000 :: real) - (52359/100000)^3 / 6 + (52359/100000)^5 / 120
      + \<bar>52359/100000\<bar>^7 / 5040 < 1/2"
    by (simp add: power_divide)
  then show ?thesis using sin_poly7 [of "52359/100000"] by linarith
qed

lemma sin_gt_half: "1/2 < sin (52366/100000 :: real)"
proof -
  have "1/2 < (52366/100000 :: real) - (52366/100000)^3 / 6 + (52366/100000)^5 / 120
      - \<bar>52366/100000\<bar>^7 / 5040"
    by (simp add: power_divide)
  then show ?thesis using sin_poly7 [of "52366/100000"] by linarith
qed

lemma pi_lower: "31415/10000 < pi"
proof -
  have "sin (52359/100000 :: real) < sin (pi/6)" using sin_lt_half by (simp add: sin_30)
  moreover have "(52359/100000 :: real) \<le> pi/2" "- (pi/2) \<le> (52359/100000 :: real)"
    using pi_ge_two by simp_all
  moreover have "pi/6 \<le> pi/2" "- (pi/2) \<le> pi/6" by simp_all
  ultimately have "(52359/100000 :: real) < pi/6"
    using sin_mono_less_eq [of "52359/100000" "pi/6"] by simp
  then show ?thesis by simp
qed

lemma pi_upper: "pi < 3142/1000"
proof -
  have "sin (pi/6) < sin (52366/100000 :: real)" using sin_gt_half by (simp add: sin_30)
  moreover have "(52366/100000 :: real) \<le> pi/2" "- (pi/2) \<le> (52366/100000 :: real)"
    using pi_ge_two by simp_all
  moreover have "pi/6 \<le> pi/2" "- (pi/2) \<le> pi/6" by simp_all
  ultimately have "pi/6 < (52366/100000 :: real)"
    using sin_mono_less_eq [of "pi/6" "52366/100000"] by simp
  then show ?thesis by simp
qed

lemma sqrt_2pi_bounds: "250659 / 100000 < sqrt (2 * pi)" "sqrt (2 * pi) < 25068 / 10000"
proof -
  have "(250659 / 100000)\<^sup>2 < 2 * pi"
    using pi_lower by (simp add: power_divide)
  then show "250659 / 100000 < sqrt (2 * pi)"
    by (rule real_less_rsqrt)
  have "2 * pi < (25068 / 10000)\<^sup>2"
    using pi_upper by (simp add: power_divide)
  then show "sqrt (2 * pi) < 25068 / 10000"
    by (intro real_less_lsqrt) simp_all
qed

section \<open>The maximum of curve A (C6)\<close>

lemma norm_pdf_le_zero: "norm_pdf x \<le> norm_pdf 0"
proof -
  have "exp (- (x\<^sup>2) / 2) \<le> exp 0"
    by (subst exp_le_cancel_iff) simp
  then show ?thesis
    by (simp add: norm_pdf_def divide_right_mono)
qed

lemma grid_100: "grid ! 100 = 0"
  by (simp add: grid_nth)

lemma curveA_100: "curveA ! 100 = norm_pdf 0"
  by (simp add: curveA_nth grid_100)

lemma Max_curveA: "Max (set curveA) = norm_pdf 0"
proof (rule Max_eqI)
  show "finite (set curveA)" by simp
  show "y \<le> norm_pdf 0" if "y \<in> set curveA" for y
    using that by (auto simp add: curveA_def scipy_stats_norm_pdf_def norm_pdf_le_zero)
  have "curveA ! 100 \<in> set curveA"
    by (rule nth_mem) (simp add: length_curveA)
  then show "norm_pdf 0 \<in> set curveA"
    by (simp add: curveA_100)
qed

lemma norm_pdf_0_bounds: "39891 / 100000 < norm_pdf 0" "norm_pdf 0 < 39895 / 100000"
proof -
  have p: "0 < sqrt (2 * pi)" by simp
  have v: "norm_pdf 0 = 1 / sqrt (2 * pi)" by (simp add: norm_pdf_def)
  show "39891 / 100000 < norm_pdf 0"
    unfolding v using sqrt_2pi_bounds(2) p by (simp add: field_simps)
  show "norm_pdf 0 < 39895 / 100000"
    unfolding v using sqrt_2pi_bounds(1) p by (simp add: field_simps)
qed

lemma grid_f64_away:
  assumes "i < 200" "i \<noteq> 100"
  shows "9 / 100 \<le> \<bar>grid_f64 ! i\<bar>"
proof -
  have "real i \<le> 99 \<or> 101 \<le> real i"
    using assms(2) by linarith
  moreover have "(1 / 10 ^ 13 :: real) \<le> 1 / 100"
    by simp
  ultimately show ?thesis
    using grid_f64_close [OF assms(1)] by linarith
qed

text \<open>
  C6, as stated: the grid contains the point \<open>x = 0.0\<close>, and curve A has its
  maximum there. No element of the grid is \<open>0.0\<close>: the element at index 100 is
  \<open>-10 + 100 * delta\<close> with a \<open>delta\<close> slightly below one tenth.
\<close>

theorem grid_has_no_zero: "0 \<notin> set grid_f64"
proof
  assume "0 \<in> set grid_f64"
  then obtain i where i: "i < 200" "grid_f64 ! i = 0"
    by (auto simp add: in_set_conv_nth length_grid_f64)
  show False
  proof (cases "i = 100")
    case True
    then show ?thesis
      using i(2) by (simp add: grid_f64_100)
  next
    case False
    then show ?thesis
      using grid_f64_away [OF i(1)] i(2) by simp
  qed
qed

lemma norm_pdf_antimono:
  assumes "\<bar>a\<bar> \<le> \<bar>b\<bar>"
  shows "norm_pdf b \<le> norm_pdf a"
proof -
  have "a\<^sup>2 \<le> b\<^sup>2"
    using assms by (simp add: abs_le_square_iff)
  then have "exp (- (b\<^sup>2) / 2) \<le> exp (- (a\<^sup>2) / 2)"
    by simp
  then show ?thesis
    unfolding norm_pdf_def by (rule divide_right_mono) simp
qed

lemma length_curveA_f64: "length curveA_f64 = 200"
  by (simp add: curveA_f64_def scipy_stats_norm_pdf_def length_grid_f64)

lemma curveA_f64_nth: "i < 200 \<Longrightarrow> curveA_f64 ! i = norm_pdf (grid_f64 ! i)"
  by (simp add: curveA_f64_def scipy_stats_norm_pdf_def length_grid_f64)

lemma Max_curveA_f64: "Max (set curveA_f64) = curveA_f64 ! 100"
proof (rule Max_eqI)
  show "finite (set curveA_f64)" by simp
  show "curveA_f64 ! 100 \<in> set curveA_f64"
    by (rule nth_mem) (simp add: length_curveA_f64)
  show "y \<le> curveA_f64 ! 100" if "y \<in> set curveA_f64" for y
  proof -
    from that obtain i where i: "i < 200" "y = curveA_f64 ! i"
      by (auto simp add: in_set_conv_nth length_curveA_f64)
    have "\<bar>grid_f64 ! 100\<bar> \<le> \<bar>grid_f64 ! i\<bar>"
    proof (cases "i = 100")
      case True
      then show ?thesis by simp
    next
      case False
      have "\<bar>grid_f64 ! 100\<bar> \<le> 9 / 100"
        by (simp add: grid_f64_100)
      then show ?thesis
        using grid_f64_away [OF i(1) False] by linarith
    qed
    then have "norm_pdf (grid_f64 ! i) \<le> norm_pdf (grid_f64 ! 100)"
      by (rule norm_pdf_antimono)
    then show ?thesis
      using i by (simp add: curveA_f64_nth)
  qed
qed

lemma curveA_f64_100_bounds:
  "39885 / 100000 < curveA_f64 ! 100" "curveA_f64 ! 100 < 39895 / 100000"
proof -
  define x :: real where "x = - 20 / 2 ^ 49"
  have v: "curveA_f64 ! 100 = norm_pdf x"
    by (simp add: curveA_f64_nth grid_f64_100 x_def)
  have "norm_pdf x \<le> norm_pdf 0"
    by (rule norm_pdf_le_zero)
  then show "curveA_f64 ! 100 < 39895 / 100000"
    unfolding v using norm_pdf_0_bounds(2) by linarith
  have f: "norm_pdf x = norm_pdf 0 * exp (- (x\<^sup>2) / 2)"
    by (simp add: norm_pdf_def)
  have "9999 / 10000 \<le> 1 + - (x\<^sup>2) / 2"
    by (simp add: x_def power_divide)
  also have "\<dots> \<le> exp (- (x\<^sup>2) / 2)"
    by (rule exp_ge_add_one_self)
  finally have e: "9999 / 10000 \<le> exp (- (x\<^sup>2) / 2)" .
  have p: "39891 / 100000 \<le> norm_pdf 0"
    using norm_pdf_0_bounds(1) by simp
  have "39891 / 100000 * (9999 / 10000) \<le> norm_pdf 0 * exp (- (x\<^sup>2) / 2)"
    using p e by (intro mult_mono) simp_all
  then show "39885 / 100000 < curveA_f64 ! 100"
    unfolding v f by simp
qed

text \<open>
  C6, amended: the grid has no element \<open>0.0\<close>; its element at index 100 is
  \<open>-20 * 2^-49\<close> (about \<open>-3.55e-14\<close>), that is \<open>0.0\<close> within \<open>1e-13\<close>. Curve A takes its maximum over the grid at that index, and the
  maximum is 0.3989 to four decimal places.
\<close>

theorem curveA_maximum:
  "grid_f64 ! 100 = - 20 / 2 ^ 49 \<and> \<bar>grid_f64 ! 100\<bar> \<le> 1 / 10 ^ 13 \<and>
   Max (set curveA_f64) = curveA_f64 ! 100 \<and>
   \<bar>curveA_f64 ! 100 - 0.3989\<bar> < 0.00005"
proof -
  have "\<bar>- 20 / 2 ^ 49\<bar> \<le> (1 / 10 ^ 13 :: real)"
    by simp
  moreover have "\<bar>curveA_f64 ! 100 - 3989 / 10000\<bar> < 5 / 100000"
    using curveA_f64_100_bounds by linarith
  then have "\<bar>curveA_f64 ! 100 - 0.3989\<bar> < 0.00005"
    by simp
  ultimately show ?thesis
    by (simp only: grid_f64_100 Max_curveA_f64 simp_thms)
qed

section \<open>Symmetry of curve A (C2)\<close>





section \<open>The peak of curve B (C10)\<close>

lemma sqrt_exp: "sqrt (exp y) = exp (y / 2)"
proof (rule real_sqrt_unique)
  show "(exp (y / 2))\<^sup>2 = exp y"
    unfolding power2_eq_square exp_add [symmetric] by simp
qed simp

lemma sqrt_norm_pdf: "sqrt (norm_pdf x) = exp (- (x\<^sup>2) / 4) / sqrt (sqrt (2 * pi))"
proof -
  have "sqrt (norm_pdf x) = sqrt (exp (- (x\<^sup>2) / 2)) / sqrt (sqrt (2 * pi))"
    unfolding norm_pdf_def by (rule real_sqrt_divide)
  also have "sqrt (exp (- (x\<^sup>2) / 2)) = exp (- (x\<^sup>2) / 4)"
    unfolding sqrt_exp by simp
  finally show ?thesis .
qed

lemma sum_curveB_raw:
  "np_sum curveB_raw = (\<Sum>i = 0..<200. exp (- ((grid ! i)\<^sup>2) / 4)) / sqrt (sqrt (2 * pi))"
proof -
  have "np_sum curveB_raw = (\<Sum>i = 0..<200. curveB_raw ! i)"
    unfolding np_sum_def sum_list_sum_nth [of curveB_raw] length_curveB_raw ..
  also have "\<dots> = (\<Sum>i = 0..<200. exp (- ((grid ! i)\<^sup>2) / 4) / sqrt (sqrt (2 * pi)))"
    by (intro sum.cong refl) (simp only: atLeastLessThan_iff curveB_raw_nth sqrt_norm_pdf)
  finally show ?thesis
    by (simp only: sum_divide_distrib)
qed

lemma poly_sum: "(\<Sum>i = 80..<121. 1 - (- 10 + real i * 0.1)\<^sup>2 / 4) = 533 / 20"
  by (simp add: sum.atLeast_Suc_lessThan power2_eq_square)

lemma exp_sum_lower: "533 / 20 \<le> (\<Sum>i = 0..<200. exp (- ((grid ! i)\<^sup>2) / 4))"
proof -
  have "533 / 20 = (\<Sum>i = 80..<121. 1 + - ((- 10 + real i * 0.1)\<^sup>2) / 4)"
    using poly_sum by simp
  also have "\<dots> \<le> (\<Sum>i = 80..<121. exp (- ((- 10 + real i * 0.1)\<^sup>2) / 4))"
    by (intro sum_mono exp_ge_add_one_self)
  also have "\<dots> = (\<Sum>i = 80..<121. exp (- ((grid ! i)\<^sup>2) / 4))"
    by (intro sum.cong) (simp_all add: grid_nth)
  also have "\<dots> \<le> (\<Sum>i = 0..<200. exp (- ((grid ! i)\<^sup>2) / 4))"
    by (intro sum_mono2) simp_all
  finally show ?thesis .
qed

lemma curveB_100: "curveB ! 100 = 10 / (\<Sum>i = 0..<200. exp (- ((grid ! i)\<^sup>2) / 4))"
proof -
  have p: "0 < sqrt (sqrt (2 * pi))"
    by simp
  have "curveB ! 100 = sqrt (norm_pdf 0) / (np_sum curveB_raw * 0.1)"
    by (simp add: curveB_nth grid_100)
  then show ?thesis
    unfolding sum_curveB_raw sqrt_norm_pdf using p by simp
qed

lemma Max_curveB: "Max (set curveB) = curveB ! 100"
proof (rule Max_eqI)
  show "finite (set curveB)" by simp
  show "curveB ! 100 \<in> set curveB"
    by (rule nth_mem) (simp add: length_curveB)
  show "y \<le> curveB ! 100" if "y \<in> set curveB" for y
  proof -
    from that obtain x where y: "y = sqrt (norm_pdf x) / (np_sum curveB_raw * 0.1)"
      by (auto simp add: curveB_def curveB_raw_def np_sqrt_def scipy_stats_norm_pdf_def)
    have "sqrt (norm_pdf x) \<le> sqrt (norm_pdf 0)"
      using norm_pdf_le_zero [of x] by simp
    then have "sqrt (norm_pdf x) / (np_sum curveB_raw * 0.1)
        \<le> sqrt (norm_pdf 0) / (np_sum curveB_raw * 0.1)"
      using curveB_raw_sum_pos by (intro divide_right_mono) simp_all
    then show ?thesis
      unfolding y by (simp add: curveB_nth grid_100)
  qed
qed

text \<open>
  C10: the maximum of the normalised curve B over the grid is strictly less than
  the maximum of curve A over the grid.
\<close>

theorem peak_softened: "Max (set curveB) < Max (set curveA)"
proof -
  have "curveB ! 100 \<le> 10 / (533 / 20)"
    unfolding curveB_100 using exp_sum_lower by (intro divide_left_mono) simp_all
  also have "\<dots> < 39891 / 100000" by simp
  also have "\<dots> < norm_pdf 0" by (rule norm_pdf_0_bounds)
  finally show ?thesis
    by (simp add: Max_curveA Max_curveB)
qed

section \<open>The Riemann sum of curve A (C5)\<close>

lemma sum_upto4: "(\<Sum>m<4. f m) = f 0 + f 1 + f 2 + (f (3::nat) :: real)"
  by (simp add: eval_nat_numeral)

lemma exp_poly3:
  assumes "- 1 \<le> x" "x \<le> (0::real)"
  shows "1 + x + x^2 / 2 + x^3 / 6 \<le> exp x" "exp x \<le> 1 + x + x^2 / 2 + x^3 / 6 + x^4 / 8"
proof -
  obtain t where t: "\<bar>t\<bar> \<le> \<bar>x\<bar>"
    and e: "exp x = (\<Sum>m<4. x ^ m / fact m) + exp t / fact 4 * x ^ 4"
    using Maclaurin_exp_le [of x 4] by blast
  have s: "(\<Sum>m<4. x ^ m / fact m) = 1 + x + x^2 / 2 + x^3 / 6"
    unfolding sum_upto4 by (simp add: fact_numeral)
  have f: "fact 4 = (24 :: real)" by (simp add: fact_numeral)
  have x4: "0 \<le> x^4" by simp
  have "t \<le> 1" using t assms by linarith
  then have "exp t \<le> exp 1" by simp
  then have et: "exp t \<le> 3" using exp_le by linarith
  have et0: "0 \<le> exp t" by simp
  have r: "exp x = 1 + x + x^2 / 2 + x^3 / 6 + exp t * x^4 / 24"
    using e unfolding s f by simp
  have "0 \<le> exp t * x^4" using et0 x4 by (rule mult_nonneg_nonneg)
  then show "1 + x + x^2 / 2 + x^3 / 6 \<le> exp x" unfolding r by simp
  have "exp t * x^4 \<le> 3 * x^4" using et x4 by (rule mult_right_mono)
  then show "exp x \<le> 1 + x + x^2 / 2 + x^3 / 6 + x^4 / 8" unfolding r by simp
qed

lemma exp_q:
  "9950124791 / 10000000000 \<le> exp (- 1 / 200 :: real)"
  "exp (- 1 / 200 :: real) \<le> 9950124793 / 10000000000"
proof -
  have a: "(9950124791 / 10000000000 :: real)
      \<le> 1 + (- 1 / 200) + (- 1 / 200)^2 / 2 + (- 1 / 200)^3 / 6"
    by (simp add: power_divide)
  have b: "1 + (- 1 / 200) + (- 1 / 200)^2 / 2 + (- 1 / 200)^3 / 6 + (- 1 / 200)^4 / 8
      \<le> (9950124793 / 10000000000 :: real)"
    by (simp add: power_divide)
  show "9950124791 / 10000000000 \<le> exp (- 1 / 200 :: real)"
    using a exp_poly3(1) [of "- 1 / 200"] by linarith
  show "exp (- 1 / 200 :: real) \<le> 9950124793 / 10000000000"
    using b exp_poly3(2) [of "- 1 / 200"] by linarith
qed

lemma exp_q2:
  "9900498333 / 10000000000 \<le> exp (- 1 / 100 :: real)"
  "exp (- 1 / 100 :: real) \<le> 9900498346 / 10000000000"
proof -
  have a: "(9900498333 / 10000000000 :: real)
      \<le> 1 + (- 1 / 100) + (- 1 / 100)^2 / 2 + (- 1 / 100)^3 / 6"
    by (simp add: power_divide)
  have b: "1 + (- 1 / 100) + (- 1 / 100)^2 / 2 + (- 1 / 100)^3 / 6 + (- 1 / 100)^4 / 8
      \<le> (9900498346 / 10000000000 :: real)"
    by (simp add: power_divide)
  show "9900498333 / 10000000000 \<le> exp (- 1 / 100 :: real)"
    using a exp_poly3(1) [of "- 1 / 100"] by linarith
  show "exp (- 1 / 100 :: real) \<le> 9900498346 / 10000000000"
    using b exp_poly3(2) [of "- 1 / 100"] by linarith
qed

lemma gauss_term_Suc: "gauss_term (Suc k) = gauss_term k * gauss_ratio k"
  unfolding gauss_term_def gauss_ratio_def exp_add [symmetric]
  by (simp add: power2_eq_square field_simps)

lemma gauss_ratio_Suc: "gauss_ratio (Suc k) = gauss_ratio k * exp (- 1 / 100)"
  unfolding gauss_ratio_def exp_add [symmetric]
  by (simp add: field_simps)

lemma mul_lo_sound:
  assumes "0 \<le> a" "0 \<le> c" "real_of_int a / real_of_int fx_one \<le> x"
    "real_of_int c / real_of_int fx_one \<le> y"
  shows "0 \<le> mul_lo a c" "real_of_int (mul_lo a c) / real_of_int fx_one \<le> x * y"
proof -
  have m: "0 < fx_one" by (simp add: fx_one_def)
  show "0 \<le> mul_lo a c"
    unfolding mul_lo_def using assms(1,2) m by (simp add: pos_imp_zdiv_nonneg_iff)
  have "(a * c) div fx_one * fx_one + (a * c) mod fx_one = a * c"
    by (rule div_mult_mod_eq)
  moreover have "0 \<le> (a * c) mod fx_one"
    using m by (rule pos_mod_sign)
  ultimately have "(a * c) div fx_one * fx_one \<le> a * c"
    by linarith
  then have "real_of_int ((a * c) div fx_one * fx_one) \<le> real_of_int (a * c)"
    by (rule of_int_le_iff [THEN iffD2])
  then have "real_of_int (mul_lo a c) * real_of_int fx_one \<le> real_of_int a * real_of_int c"
    by (simp add: mul_lo_def)
  then have "real_of_int (mul_lo a c) / real_of_int fx_one
      \<le> (real_of_int a / real_of_int fx_one) * (real_of_int c / real_of_int fx_one)"
    using m by (simp add: field_simps)
  also have "\<dots> \<le> x * y"
  proof (rule mult_mono)
    have "0 \<le> real_of_int a / real_of_int fx_one" using assms(1) m by simp
    then show "0 \<le> x" using assms(3) by linarith
    show "0 \<le> real_of_int c / real_of_int fx_one" using assms(2) m by simp
  qed (rule assms)+
  finally show "real_of_int (mul_lo a c) / real_of_int fx_one \<le> x * y" .
qed

lemma mul_hi_sound:
  assumes "0 \<le> x" "0 \<le> y" "x \<le> real_of_int b / real_of_int fx_one"
    "y \<le> real_of_int d / real_of_int fx_one"
  shows "x * y \<le> real_of_int (mul_hi b d) / real_of_int fx_one"
proof -
  have m: "0 < fx_one" by (simp add: fx_one_def)
  have b0: "0 \<le> real_of_int b / real_of_int fx_one" using assms(1,3) by linarith
  have "x * y \<le> (real_of_int b / real_of_int fx_one) * (real_of_int d / real_of_int fx_one)"
    using assms b0 by (intro mult_mono) auto
  also have "\<dots> \<le> real_of_int (mul_hi b d) / real_of_int fx_one"
  proof -
    have "(b * d) div fx_one * fx_one + (b * d) mod fx_one = b * d"
      by (rule div_mult_mod_eq)
    moreover have "(b * d) mod fx_one < fx_one"
      using m by (rule pos_mod_bound)
    moreover have "mul_hi b d * fx_one = (b * d) div fx_one * fx_one + fx_one"
      unfolding mul_hi_def by (simp add: distrib_right)
    ultimately have "b * d \<le> mul_hi b d * fx_one"
      by linarith
    then have "real_of_int (b * d) \<le> real_of_int (mul_hi b d * fx_one)"
      by (rule of_int_le_iff [THEN iffD2])
    then have "real_of_int b * real_of_int d \<le> real_of_int (mul_hi b d) * real_of_int fx_one"
      by simp
    then show ?thesis using m by (simp add: field_simps)
  qed
  finally show ?thesis .
qed

lemma gauss_iter_sound:
  "gauss_iter k = (a, b, c, d) \<Longrightarrow>
     0 \<le> a \<and> 0 \<le> c \<and>
     real_of_int a / real_of_int fx_one \<le> gauss_term k \<and>
     gauss_term k \<le> real_of_int b / real_of_int fx_one \<and>
     real_of_int c / real_of_int fx_one \<le> gauss_ratio k \<and>
     gauss_ratio k \<le> real_of_int d / real_of_int fx_one"
proof (induction k arbitrary: a b c d)
  case 0
  then have v: "a = fx_one" "b = fx_one" "c = 9950124791" "d = 9950124793" by simp_all
  have "gauss_term 0 = 1" by (simp add: gauss_term_def)
  moreover have "gauss_ratio 0 = exp (- 1 / 200)" by (simp add: gauss_ratio_def)
  ultimately show ?case
    using exp_q unfolding v by (simp add: fx_one_def)
next
  case (Suc k)
  obtain a' b' c' d' where s: "gauss_iter k = (a', b', c', d')"
    by (cases "gauss_iter k") auto
  note ih = Suc.IH [OF s]
  from Suc.prems s have v: "a = mul_lo a' c'" "b = mul_hi b' d'"
    "c = mul_lo c' 9900498333" "d = mul_hi d' 9900498346" by simp_all
  have e: "real_of_int 9900498333 / real_of_int fx_one \<le> exp (- 1 / 100)"
    "exp (- 1 / 100 :: real) \<le> real_of_int 9900498346 / real_of_int fx_one"
    using exp_q2 by (simp_all add: fx_one_def)
  have t0: "0 \<le> gauss_term k" and r0: "0 \<le> gauss_ratio k" and e0: "0 \<le> exp (- 1 / 100 :: real)"
    by (simp_all add: gauss_term_def gauss_ratio_def)
  have "0 \<le> a" "real_of_int a / real_of_int fx_one \<le> gauss_term (Suc k)"
    unfolding v gauss_term_Suc using ih by (auto intro: mul_lo_sound)
  moreover have "gauss_term (Suc k) \<le> real_of_int b / real_of_int fx_one"
    unfolding v gauss_term_Suc using ih t0 r0 by (auto intro: mul_hi_sound)
  moreover have "0 \<le> c" "real_of_int c / real_of_int fx_one \<le> gauss_ratio (Suc k)"
    unfolding v gauss_ratio_Suc using ih e(1) by (auto intro: mul_lo_sound)
  moreover have "gauss_ratio (Suc k) \<le> real_of_int d / real_of_int fx_one"
    unfolding v gauss_ratio_Suc using ih r0 e0 e(2) by (auto intro: mul_hi_sound)
  ultimately show ?case by simp
qed

lemma gauss_acc_sum:
  "gauss_acc n (gauss_iter k) (lo, hi) =
     (lo + (\<Sum>j<n. fst (gauss_iter (k + j))), hi + (\<Sum>j<n. fst (snd (gauss_iter (k + j)))))"
proof (induction n arbitrary: k lo hi)
  case 0
  then show ?case by simp
next
  case (Suc n)
  obtain a b c d where s: "gauss_iter k = (a, b, c, d)"
    by (cases "gauss_iter k") auto
  have "gauss_acc (Suc n) (gauss_iter k) (lo, hi) = gauss_acc n (gauss_iter (Suc k)) (lo + a, hi + b)"
    by (simp add: s)
  also have "\<dots> = (lo + a + (\<Sum>j<n. fst (gauss_iter (Suc k + j))),
      hi + b + (\<Sum>j<n. fst (snd (gauss_iter (Suc k + j)))))"
    by (rule Suc.IH)
  also have "\<dots> = (lo + (\<Sum>j<Suc n. fst (gauss_iter (k + j))),
      hi + (\<Sum>j<Suc n. fst (snd (gauss_iter (k + j)))))"
    unfolding sum.lessThan_Suc_shift by (simp add: s)
  finally show ?case .
qed

lemma gauss_term_bounds:
  "real_of_int (fst (gauss_iter k)) / real_of_int fx_one \<le> gauss_term k"
  "gauss_term k \<le> real_of_int (fst (snd (gauss_iter k))) / real_of_int fx_one"
proof -
  obtain a b c d where s: "gauss_iter k = (a, b, c, d)"
    by (cases "gauss_iter k") auto
  from gauss_iter_sound [OF s] show
    "real_of_int (fst (gauss_iter k)) / real_of_int fx_one \<le> gauss_term k"
    "gauss_term k \<le> real_of_int (fst (snd (gauss_iter k))) / real_of_int fx_one"
    by (simp_all add: s)
qed

lemma gauss_sum_bounds:
  assumes "gauss_acc n (gauss_iter 0) (0, 0) = (lo, hi)"
  shows "real_of_int lo / real_of_int fx_one \<le> (\<Sum>k<n. gauss_term k)"
    "(\<Sum>k<n. gauss_term k) \<le> real_of_int hi / real_of_int fx_one"
proof -
  have lo: "lo = (\<Sum>j<n. fst (gauss_iter j))" and hi: "hi = (\<Sum>j<n. fst (snd (gauss_iter j)))"
    using assms gauss_acc_sum [of n 0 0 0] by simp_all
  have "real_of_int lo / real_of_int fx_one = (\<Sum>j<n. real_of_int (fst (gauss_iter j)) / real_of_int fx_one)"
    unfolding lo by (simp add: sum_divide_distrib)
  also have "\<dots> \<le> (\<Sum>k<n. gauss_term k)"
    by (intro sum_mono gauss_term_bounds)
  finally show "real_of_int lo / real_of_int fx_one \<le> (\<Sum>k<n. gauss_term k)" .
  have "(\<Sum>k<n. gauss_term k) \<le> (\<Sum>j<n. real_of_int (fst (snd (gauss_iter j))) / real_of_int fx_one)"
    by (intro sum_mono gauss_term_bounds)
  also have "\<dots> = real_of_int hi / real_of_int fx_one"
    unfolding hi by (simp add: sum_divide_distrib)
  finally show "(\<Sum>k<n. gauss_term k) \<le> real_of_int hi / real_of_int fx_one" .
qed

lemma norm_pdf_right:
  assumes "k < 100"
  shows "norm_pdf (grid ! (100 + k)) = gauss_term k / sqrt (2 * pi)"
proof -
  have "grid ! (100 + k) = - 10 + real (100 + k) * 0.1"
    using assms by (simp add: grid_nth)
  also have "\<dots> = real k / 10"
    by (simp add: field_simps)
  finally show ?thesis
    by (simp add: norm_pdf_def gauss_term_def)
qed

lemma norm_pdf_left:
  assumes "k < 100"
  shows "norm_pdf (grid ! (99 - k)) = gauss_term (Suc k) / sqrt (2 * pi)"
proof -
  have "grid ! (99 - k) = - 10 + real (99 - k) * 0.1"
    using assms by (simp add: grid_nth)
  also have "\<dots> = - (real (Suc k) / 10)"
    using assms by (simp add: field_simps)
  finally show ?thesis
    by (simp add: norm_pdf_def gauss_term_def)
qed

lemma sum_curveA_split:
  "np_sum curveA = ((\<Sum>k<100. gauss_term k) + (\<Sum>k<100. gauss_term (Suc k))) / sqrt (2 * pi)"
proof -
  have "np_sum curveA = (\<Sum>i = 0..<200. curveA ! i)"
    unfolding np_sum_def sum_list_sum_nth [of curveA] length_curveA ..
  also have "\<dots> = (\<Sum>i = 0..<200. norm_pdf (grid ! i))"
    by (intro sum.cong) (simp_all add: curveA_nth)
  also have "\<dots> = (\<Sum>i = 0..<100. norm_pdf (grid ! i)) + (\<Sum>i = 100..<200. norm_pdf (grid ! i))"
    by (rule sum.atLeastLessThan_concat [symmetric]) simp_all
  also have "(\<Sum>i = 100..<200. norm_pdf (grid ! i)) = (\<Sum>k<100. norm_pdf (grid ! (100 + k)))"
    using sum.shift_bounds_nat_ivl [of "\<lambda>i. norm_pdf (grid ! i)" 0 100 100]
    by (simp add: lessThan_atLeast0 add.commute)
  also have "\<dots> = (\<Sum>k<100. gauss_term k / sqrt (2 * pi))"
    by (intro sum.cong) (simp_all add: norm_pdf_right)
  also have "(\<Sum>i = 0..<100. norm_pdf (grid ! i)) = (\<Sum>k<100. norm_pdf (grid ! (100 - Suc k)))"
    using sum.nat_diff_reindex [of "\<lambda>i. norm_pdf (grid ! i)" 100]
    by (simp add: lessThan_atLeast0)
  also have "\<dots> = (\<Sum>k<100. gauss_term (Suc k) / sqrt (2 * pi))"
    by (intro sum.cong) (simp_all add: norm_pdf_left)
  finally show ?thesis
    by (simp add: sum_divide_distrib add_divide_distrib add.commute)
qed

lemma acc100: "gauss_acc 100 (gauss_iter 0) (0, 0) = (130331410558, 130331419205)"
  by code_simp

lemma acc101: "gauss_acc 101 (gauss_iter 0) (0, 0) = (130331410558, 130331419206)"
  by code_simp

lemma gauss_total_bounds:
  "250662 / 10000 \<le> (\<Sum>k<100. gauss_term k) + (\<Sum>k<100. gauss_term (Suc k))"
  "(\<Sum>k<100. gauss_term k) + (\<Sum>k<100. gauss_term (Suc k)) \<le> 250663 / 10000"
proof -
  have s: "(\<Sum>k<100. gauss_term (Suc k)) = (\<Sum>k<101. gauss_term k) - 1"
    using sum.lessThan_Suc_shift [of gauss_term 100] by (simp add: gauss_term_def)
  have a: "130331410558 / 10000000000 \<le> (\<Sum>k<100. gauss_term k)"
    "(\<Sum>k<100. gauss_term k) \<le> 130331419205 / 10000000000"
    using gauss_sum_bounds [OF acc100] by (simp_all add: fx_one_def)
  have b: "130331410558 / 10000000000 \<le> (\<Sum>k<101. gauss_term k)"
    "(\<Sum>k<101. gauss_term k) \<le> 130331419206 / 10000000000"
    using gauss_sum_bounds [OF acc101] by (simp_all add: fx_one_def)
  show "250662 / 10000 \<le> (\<Sum>k<100. gauss_term k) + (\<Sum>k<100. gauss_term (Suc k))"
    unfolding s using a(1) b(1) by linarith
  show "(\<Sum>k<100. gauss_term k) + (\<Sum>k<100. gauss_term (Suc k)) \<le> 250663 / 10000"
    unfolding s using a(2) b(2) by linarith
qed

text \<open>
  C5: \<open>sum(curveA) * 0.1\<close> is within \<open>1e-3\<close> of 1.
\<close>

theorem curveA_riemann_sum: "\<bar>np_sum curveA * 0.1 - 1\<bar> < 1 / 1000"
proof -
  define S where "S = (\<Sum>k<100. gauss_term k) + (\<Sum>k<100. gauss_term (Suc k))"
  define r where "r = sqrt (2 * pi)"
  have r: "250659 / 100000 < r" "r < 25068 / 10000"
    unfolding r_def by (rule sqrt_2pi_bounds)+
  have S: "250662 / 10000 \<le> S" "S \<le> 250663 / 10000"
    unfolding S_def by (rule gauss_total_bounds)+
  define q where "q = (S - 10 * r) / (10 * r)"
  have e: "np_sum curveA * 0.1 - 1 = q"
    unfolding sum_curveA_split S_def [symmetric] r_def [symmetric] q_def
    using r(1) by (simp add: field_simps)
  have "- (1 / 1000) * (10 * r) < S - 10 * r" "S - 10 * r < 1 / 1000 * (10 * r)"
    using r S by simp_all
  then have "- (1 / 1000) < q" "q < 1 / 1000"
    unfolding q_def using r(1) by (simp_all add: pos_less_divide_eq pos_divide_less_eq)
  then have "\<bar>q\<bar> < 1 / 1000"
    by linarith
  then show ?thesis
    by (simp only: e)
qed

end
